theory Spec2Isabelle
  imports Complex_Main "HOL-Library.AList"
begin

section \<open>InputWritr: the data model\<close>

text \<open>
  The model follows \<^verbatim>\<open>src/InputWritr/InputWritr.js\<close>. The closure variables of one
  InputWritr instance are the fields of the record \<open>state\<close>. JavaScript objects that the
  code shares by reference (trigger groups, history objects) live in two stores indexed
  by address, so that two references to one object see each other's writes.

  Conventions of the embedding:
  \<^item> a property key is a string (JavaScript converts every key to one); a raw code such
    as \<open>37\<close> is identified with its key \<open>''37''\<close>;
  \<^item> a value stored in a trigger group is \<open>Undefined\<close>, a string, or a function, the
    function being known by its identity only (\<open>Fn h\<close>): two entries are the same
    handler reference exactly when they are equal;
  \<^item> Clock readings are rationals (every finite double is one); an operation that reads
    \<open>get_timestamp()\<close> takes the reading as its argument \<open>now\<close>;
  \<^item> a handler is external code: calling it appends \<open>Invoke h ctx\<close> to the trace and
    yields the symbolic result \<open>RResult h ctx\<close>; it is taken not to call back into the
    InputWritr and not to throw;
  \<^item> \<open>console.warn\<close>, \<open>preventDefault\<close> and \<open>setTimeout\<close> are external too: each call
    is appended to the trace with its arguments;
  \<^item> on trigger groups and on the \<open>triggers\<close> object, property lookups do not reach
    \<open>Object.prototype\<close>: their keys are taken to differ from the names of its members.
    On the \<open>histories\<close> array the inherited names are modelled: \<open>length\<close>, the method
    \<open>push\<close> that the code calls, \<open>__proto__\<close>, and a read of a name the array does not
    own.
\<close>

type_synonym pkey = string
type_synonym addr = nat
type_synonym hid = nat

text \<open>The event information object, opaque; \<open>None\<close> is \<open>undefined\<close>.\<close>
type_synonym ectx = "nat option"

datatype val = Undefined | Str string | Fn hid

type_synonym group = "pkey \<rightharpoonup> val"

text \<open>A history entry is the array \<open>[trigger, alias]\<close>.\<close>
type_synonym entry = "pkey \<times> pkey"

text \<open>
  A history object, as its own properties in insertion order; a write to a key that is
  already there keeps the key's position (\<open>AList.update\<close>).
\<close>
type_synonym hist = "(int \<times> entry) list"

datatype error = TypeError | RangeError

text \<open>The closure made by \<open>makeEventCall(info)\<close>.\<close>
datatype closure = EventCall entry

text \<open>
  The first argument of a \<open>setTimeout\<close> call: a number (\<open>None\<close> is NaN) or a function.
\<close>
datatype timer_arg = TNumber "int option" | TFunction closure

text \<open>
  \<open>SetTimeout f d\<close>: a call of \<open>setTimeout\<close> with first argument \<open>f\<close> and delay \<open>d\<close>
  (\<open>None\<close> when the call passes no second argument).
\<close>
datatype effect =
    Warn string
  | Invoke hid ectx
  | PreventDefault
  | SetTimeout timer_arg "int option"

datatype ret = RUndefined | RResult hid ectx

text \<open>
  What \<open>getHistory\<close> returns: a value the instance has stored (a reference to a history
  object, or \<open>undefined\<close> as \<open>None\<close>), the length of the \<open>histories\<close> array, or, for a name
  the array does not own, whatever its prototypes hold under that name (\<open>undefined\<close>
  unless the host defines it, as it does for \<open>push\<close>).
\<close>
datatype hresult = Stored "addr option" | ArrayLength nat | Inherited pkey

text \<open>
  The argument of a pipe, as far as the pipe can observe it: \<open>undefined\<close>, \<open>null\<close>, or any
  other value, given by the key it converts to, the properties it answers with (each
  property value by its key; a property that is absent or \<open>undefined\<close> is not listed),
  and whether its \<open>preventDefault\<close> is a function. The number 37 is
  \<open>Value ''37'' [] False\<close>; the string \<open>"ab"\<close> is
  \<open>Value ''ab'' [(''length'', ''2''), (''0'', ''a''), (''1'', ''b'')] False\<close>; a keyboard
  event is \<open>Value ''[object Object]'' [(''keyCode'', ''37''), ...] True\<close>.
\<close>
datatype occurrence = OUndefined | ONull | Value pkey "(pkey \<times> pkey) list" bool

record state =
  triggers :: "(pkey \<times> addr) list"
  recipients :: "nat option"
  aliases :: "(pkey \<times> pkey list) list"
  history :: "addr option"
  histories :: "addr option list"
  named_histories :: "(pkey \<times> addr option) list"
  starting_time :: "rat option"
  event_information :: ectx
  recording :: bool
  groups :: "addr \<Rightarrow> group"
  hists :: "addr \<Rightarrow> hist"
  fresh :: addr
  trace :: "effect list"

text \<open>
  \<open>triggers\<close> and \<open>aliases\<close> are lists in the order \<open>for ... in\<close> enumerates them;
  \<open>history\<close> is \<open>None\<close> while the variable is \<open>undefined\<close>; \<open>histories\<close> holds the
  array elements (a gap reads \<open>undefined\<close>) and \<open>named_histories\<close> the array's own
  properties that are not array indices, together with the history object that has
  replaced its prototype, if one has, under \<open>__proto__\<close>; \<open>fresh\<close> is the address the
  next \<open>{}\<close> of \<open>restartHistory\<close> gets.
\<close>

record settings =
  s_triggers :: "(pkey \<times> addr) list option"
  s_recipients :: "nat option"
  s_event_information :: ectx
  s_recording :: "bool option"
  s_aliases :: "(pkey \<times> pkey list) list option"

record pipe =
  p_trigger :: pkey
  p_functions :: addr
  p_use_label :: bool
  p_code_label :: pkey
  p_prevent_defaults :: bool

section \<open>Primitive operations of the language\<close>

definition get_prop :: "group \<Rightarrow> pkey \<Rightarrow> val" where
  "get_prop g k = (case g k of None \<Rightarrow> Undefined | Some v \<Rightarrow> v)"

definition hasOwnProperty :: "group \<Rightarrow> pkey \<Rightarrow> bool" where
  "hasOwnProperty g k = (g k \<noteq> None)"

fun truthy :: "val \<Rightarrow> bool" where
  "truthy Undefined = False"
| "truthy (Str s) = (s \<noteq> [])"
| "truthy (Fn h) = True"

text \<open>\<open>Math.round\<close>: the nearest integer, a tie going up.\<close>
definition js_round :: "rat \<Rightarrow> int" where
  "js_round x = \<lfloor>x + 1 / 2\<rfloor>"

text \<open>\<open>Math.round(time - starting_time)\<close>; NaN while \<open>starting_time\<close> is undefined.\<close>
definition round_diff :: "int \<Rightarrow> rat option \<Rightarrow> int option" where
  "round_diff time st = (case st of None \<Rightarrow> None | Some t0 \<Rightarrow> Some (js_round (of_int time - t0)))"

definition is_index :: "int \<Rightarrow> bool" where
  "is_index k = (0 \<le> k \<and> k < 4294967295)"

text \<open>
  The order in which \<open>for (time in events)\<close> visits a history: array indices first,
  ascending, then the other keys in insertion order.
\<close>
definition for_in :: "hist \<Rightarrow> (int \<times> entry) list" where
  "for_in h = sort_key fst (filter (\<lambda>p. is_index (fst p)) h) @ filter (\<lambda>p. \<not> is_index (fst p)) h"

subsection \<open>Arrays\<close>

text \<open>
  A property name of an array is an array index when it is the decimal numeral, with
  no leading zero, of a number below \<open>2^32 - 1\<close>.
\<close>
definition digit_of :: "char \<Rightarrow> nat option" where
  "digit_of c = map_of [(CHR ''0'', 0), (CHR ''1'', 1), (CHR ''2'', 2), (CHR ''3'', 3),
     (CHR ''4'', 4), (CHR ''5'', 5), (CHR ''6'', 6), (CHR ''7'', 7), (CHR ''8'', 8),
     (CHR ''9'', 9)] c"

fun digits_value :: "string \<Rightarrow> nat \<Rightarrow> nat option" where
  "digits_value [] acc = Some acc"
| "digits_value (c # cs) acc =
     (case digit_of c of None \<Rightarrow> None | Some d \<Rightarrow> digits_value cs (10 * acc + d))"

definition array_index :: "pkey \<Rightarrow> nat option" where
  "array_index k =
     (case k of
        [] \<Rightarrow> None
      | c # cs \<Rightarrow>
          if c = CHR ''0'' \<and> cs \<noteq> [] then None
          else (case digits_value k 0 of
                  None \<Rightarrow> None
                | Some n \<Rightarrow> if n < 4294967295 then Some n else None))"

text \<open>\<open>xs[i] = v\<close> on an array: past the end the array grows, the gap reading \<open>undefined\<close>.\<close>
definition array_set :: "'a option list \<Rightarrow> nat \<Rightarrow> 'a option \<Rightarrow> 'a option list" where
  "array_set xs i v =
     (if i < length xs then xs[i := v] else xs @ replicate (i - length xs) None @ [v])"

text \<open>
  \<open>histories.push(v)\<close>. The method is inherited from \<open>Array.prototype\<close>. Once the
  array owns a property \<open>push\<close> (a history or \<open>undefined\<close> put there by
  \<open>saveHistory("push")\<close>), or its prototype has been replaced by a history object
  (\<open>saveHistory("__proto__")\<close>, kept as the entry \<open>__proto__\<close> of \<open>named_histories\<close>),
  what \<open>histories.push\<close> yields is no function and the call throws.
\<close>
definition array_push :: "state \<Rightarrow> addr option \<Rightarrow> error + state" where
  "array_push s v =
     (case map_of (named_histories s) ''push'' of
        Some r \<Rightarrow> Inl TypeError
      | None \<Rightarrow>
          (case map_of (named_histories s) ''__proto__'' of
             Some r \<Rightarrow> Inl TypeError
           | None \<Rightarrow> Inr (s\<lparr>histories := histories s @ [v]\<rparr>)))"

subsection \<open>The argument of a pipe\<close>

fun key_of :: "occurrence \<Rightarrow> pkey" where
  "key_of OUndefined = ''undefined''"
| "key_of ONull = ''null''"
| "key_of (Value k ps pd) = k"

text \<open>\<open>alias[code_label]\<close>: reading a property of \<open>undefined\<close> or \<open>null\<close> throws.\<close>
fun field :: "occurrence \<Rightarrow> pkey \<Rightarrow> error + pkey" where
  "field OUndefined l = Inl TypeError"
| "field ONull l = Inl TypeError"
| "field (Value k ps pd) l = Inr (case map_of ps l of None \<Rightarrow> ''undefined'' | Some v \<Rightarrow> v)"

text \<open>
  \<open>alias.preventDefault instanceof Function\<close>: reading the property of \<open>undefined\<close> or
  \<open>null\<close> throws.
\<close>
fun can_prevent :: "occurrence \<Rightarrow> error + bool" where
  "can_prevent OUndefined = Inl TypeError"
| "can_prevent ONull = Inl TypeError"
| "can_prevent (Value k ps pd) = Inr pd"

section \<open>The operations of InputWritr\<close>

subsection \<open>resetAliases and reset\<close>

text \<open>The innermost loop: \<open>trigger_group[alias_group[i]] = trigger_group[alias_name]\<close>.\<close>
fun assign_codes :: "pkey \<Rightarrow> pkey list \<Rightarrow> group \<Rightarrow> group" where
  "assign_codes alias_name [] g = g"
| "assign_codes alias_name (c # cs) g = assign_codes alias_name cs (g(c \<mapsto> get_prop g alias_name))"

text \<open>The loop over the trigger groups, for one alias.\<close>
fun each_trigger :: "pkey \<Rightarrow> pkey list \<Rightarrow> (pkey \<times> addr) list \<Rightarrow> (addr \<Rightarrow> group) \<Rightarrow> (addr \<Rightarrow> group)" where
  "each_trigger alias_name alias_group [] h = h"
| "each_trigger alias_name alias_group ((trigger_name, r) # ts) h =
     each_trigger alias_name alias_group ts (h(r := assign_codes alias_name alias_group (h r)))"

text \<open>The outer loop over the aliases.\<close>
fun each_alias :: "(pkey \<times> pkey list) list \<Rightarrow> (pkey \<times> addr) list \<Rightarrow> (addr \<Rightarrow> group) \<Rightarrow> (addr \<Rightarrow> group)" where
  "each_alias [] ts h = h"
| "each_alias ((alias_name, alias_group) # als) ts h =
     each_alias als ts (each_trigger alias_name alias_group ts h)"

definition resetAliases :: "state \<Rightarrow> state" where
  "resetAliases s = s\<lparr>groups := each_alias (aliases s) (triggers s) (groups s)\<rparr>"

definition reset :: "settings \<Rightarrow> state \<Rightarrow> state" where
  "reset cfg s =
     resetAliases (s\<lparr>
       histories := [],
       named_histories := [],
       triggers := (case s_triggers cfg of None \<Rightarrow> [] | Some t \<Rightarrow> t),
       recipients := s_recipients cfg,
       event_information := s_event_information cfg,
       recording := (case s_recording cfg of None \<Rightarrow> True | Some b \<Rightarrow> b),
       aliases := (case s_aliases cfg of None \<Rightarrow> [] | Some a \<Rightarrow> a)\<rparr>)"

text \<open>
  The constructor: every closure variable is still undefined when \<open>self.reset(settings || {})\<close>
  runs; \<open>heap\<close> and \<open>hheap\<close> are the objects that exist already.
\<close>
definition no_settings :: settings where
  "no_settings = \<lparr>s_triggers = None, s_recipients = None, s_event_information = None,
     s_recording = None, s_aliases = None\<rparr>"

definition InputWritr :: "settings option \<Rightarrow> (addr \<Rightarrow> group) \<Rightarrow> (addr \<Rightarrow> hist) \<Rightarrow> addr \<Rightarrow> state" where
  "InputWritr cfg heap hheap nxt =
     reset (case cfg of None \<Rightarrow> no_settings | Some c \<Rightarrow> c)
       \<lparr>triggers = [], recipients = None, aliases = [], history = None, histories = [],
        named_histories = [], starting_time = None, event_information = None,
        recording = False, groups = heap, hists = hheap, fresh = nxt, trace = []\<rparr>"

subsection \<open>The history operations\<close>

text \<open>
  \<open>keep_history = None\<close>: the call passes no argument. When the push throws, the rest
  of the function is not run.
\<close>
definition restartHistory :: "bool option \<Rightarrow> rat \<Rightarrow> state \<Rightarrow> (error + unit) \<times> state" where
  "restartHistory keep_history now s =
     (case (case history s of
              None \<Rightarrow> Inr s
            | Some a \<Rightarrow> (case keep_history of
                 None \<Rightarrow> Inr s
               | Some k \<Rightarrow> if k then array_push s (Some a) else Inr s)) of
        Inl e \<Rightarrow> (Inl e, s)
      | Inr s1 \<Rightarrow>
          (Inr (), s1\<lparr>history := Some (fresh s1),
                      hists := (hists s1)(fresh s1 := []),
                      fresh := Suc (fresh s1),
                      starting_time := Some now\<rparr>))"

text \<open>\<open>name = None\<close>: the call passes no argument.\<close>
definition getHistory :: "pkey option \<Rightarrow> state \<Rightarrow> hresult" where
  "getHistory name s =
     (case name of
        None \<Rightarrow> Stored (history s)
      | Some n \<Rightarrow>
          (case array_index n of
             Some i \<Rightarrow> (if i < length (histories s) then Stored (histories s ! i) else Inherited n)
           | None \<Rightarrow>
               if n = ''length'' then ArrayLength (length (histories s))
               else (case map_of (named_histories s) n of
                       None \<Rightarrow> Inherited n
                     | Some r \<Rightarrow> Stored r)))"

definition getHistories :: "state \<Rightarrow> addr option list \<times> (pkey \<times> addr option) list" where
  "getHistories s = (histories s, named_histories s)"

definition getRecording :: "state \<Rightarrow> bool" where
  "getRecording s = recording s"

definition setRecording :: "bool \<Rightarrow> state \<Rightarrow> state" where
  "setRecording recording_new s = s\<lparr>recording := recording_new\<rparr>"

definition setEventInformation :: "ectx \<Rightarrow> state \<Rightarrow> state" where
  "setEventInformation event_info_new s = s\<lparr>event_information := event_info_new\<rparr>"

text \<open>
  \<open>histories[name] = history\<close>: an array index writes an element; \<open>length\<close> cannot be
  set to a history or to \<open>undefined\<close>, and the assignment throws; \<open>__proto__\<close> replaces
  the array's prototype by the history object, and does nothing while the history is
  \<open>undefined\<close>; any other name becomes an own property of the array.
\<close>
definition saveHistory :: "pkey option \<Rightarrow> state \<Rightarrow> (error + unit) \<times> state" where
  "saveHistory name s =
     (case array_push s (history s) of
        Inl e \<Rightarrow> (Inl e, s)
      | Inr s1 \<Rightarrow>
          (case name of
             None \<Rightarrow> (Inr (), s1)
           | Some n \<Rightarrow>
               (case array_index n of
                  Some i \<Rightarrow> (Inr (), s1\<lparr>histories := array_set (histories s1) i (history s1)\<rparr>)
                | None \<Rightarrow>
                    if n = ''length'' then (Inl RangeError, s1)
                    else if n = ''__proto__'' \<and> history s1 = None then (Inr (), s1)
                    else (Inr (), s1\<lparr>named_histories :=
                            AList.update n (history s1) (named_histories s1)\<rparr>))))"

subsection \<open>callEvent and the replay closure\<close>

text \<open>
  \<open>keycode\<close> is \<open>''undefined''\<close> when the call passes one argument. Reading a property of
  \<open>triggers[event]\<close> when that is undefined, and calling what is not a function, throw.
\<close>
definition callEvent :: "val \<Rightarrow> pkey \<Rightarrow> state \<Rightarrow> (error + ret) \<times> state" where
  "callEvent event keycode s =
     (if \<not> truthy event
      then (Inr RUndefined, s\<lparr>trace := trace s @ [Warn ''Blank event given, ignoring it.'']\<rparr>)
      else
        (case (case event of
                 Str l \<Rightarrow> (case map_of (triggers s) l of
                             None \<Rightarrow> Inl TypeError
                           | Some r \<Rightarrow> Inr (get_prop (groups s r) keycode))
               | _ \<Rightarrow> Inr event) of
           Inl e \<Rightarrow> (Inl e, s)
         | Inr (Fn h) \<Rightarrow>
             (Inr (RResult h (event_information s)),
              s\<lparr>trace := trace s @ [Invoke h (event_information s)]\<rparr>)
         | Inr _ \<Rightarrow> (Inl TypeError, s)))"

definition makeEventCall :: "entry \<Rightarrow> closure" where
  "makeEventCall info = EventCall info"

text \<open>Running the closure: \<open>callEvent(info[0], info[1])\<close>, its result dropped.\<close>
fun run_closure :: "closure \<Rightarrow> state \<Rightarrow> (error + unit) \<times> state" where
  "run_closure (EventCall info) s =
     (case callEvent (Str (fst info)) (snd info) s of
        (Inl e, s') \<Rightarrow> (Inl e, s')
      | (Inr r, s') \<Rightarrow> (Inr (), s'))"

subsection \<open>playHistory\<close>

text \<open>
  The loop body computes \<open>call\<close> and then calls \<open>setTimeout\<close> with
  \<open>Math.round(time - starting_time)\<close> as its only argument.
\<close>
fun schedule :: "(int \<times> entry) list \<Rightarrow> rat option \<Rightarrow> effect list" where
  "schedule [] st = []"
| "schedule ((time, info) # es) st =
     (let call = makeEventCall info
      in SetTimeout (TNumber (round_diff time st)) None # schedule es st)"

text \<open>\<open>events = None\<close>: the call passes no argument. A loop over \<open>undefined\<close> has no turn.\<close>
definition playHistory :: "hist option \<Rightarrow> state \<Rightarrow> state" where
  "playHistory events s =
     (let evs = (case events of
                   None \<Rightarrow> (case history s of None \<Rightarrow> [] | Some a \<Rightarrow> hists s a)
                 | Some h \<Rightarrow> h)
      in s\<lparr>trace := trace s @ schedule (for_in evs) (starting_time s)\<rparr>)"

subsection \<open>makePipe and the pipe\<close>

definition quote :: string where
  "quote = [CHR 0x27]"

text \<open>
  \<open>extra = None\<close>: the call passes the trigger only; \<open>Some (code_label, prevent_defaults)\<close>
  otherwise (\<open>prevent_defaults\<close> false when the third argument is left out).
\<close>
definition makePipe :: "pkey \<Rightarrow> (pkey \<times> bool) option \<Rightarrow> state \<Rightarrow> pipe option \<times> state" where
  "makePipe trigger extra s =
     (case map_of (triggers s) trigger of
        None \<Rightarrow>
          (None, s\<lparr>trace := trace s @
             [Warn (''No trigger of label '' @ quote @ trigger @ quote @ '' has been defined.'')]\<rparr>)
      | Some functions \<Rightarrow>
          (Some \<lparr>p_trigger = trigger, p_functions = functions,
                 p_use_label = (extra \<noteq> None),
                 p_code_label = (case extra of None \<Rightarrow> ''undefined'' | Some (l, pd) \<Rightarrow> l),
                 p_prevent_defaults = (case extra of None \<Rightarrow> False | Some (l, pd) \<Rightarrow> pd)\<rparr>, s))"

text \<open>
  The first statement of the pipe: the \<open>preventDefault\<close> call it makes (none, or one), or
  the throw when \<open>prevent_defaults\<close> is set and the argument is \<open>undefined\<close> or \<open>null\<close>.
\<close>
definition prevent_default :: "pipe \<Rightarrow> occurrence \<Rightarrow> error + effect list" where
  "prevent_default p occ =
     (if p_prevent_defaults p
      then (case can_prevent occ of
              Inl e \<Rightarrow> Inl e
            | Inr pd \<Rightarrow> Inr (if pd then [PreventDefault] else []))
      else Inr [])"

text \<open>
  The second statement: the code the pipe looks up is the argument itself, or its
  property \<open>code_label\<close> when the pipe was made with one.
\<close>
definition pipe_alias :: "pipe \<Rightarrow> occurrence \<Rightarrow> error + pkey" where
  "pipe_alias p occ = (if p_use_label p then field occ (p_code_label p) else Inr (key_of occ))"

text \<open>
  One call of the pipe. Writing a property of \<open>history\<close> while it is undefined throws,
  before \<open>callEvent\<close> is reached.
\<close>
definition run_pipe :: "pipe \<Rightarrow> occurrence \<Rightarrow> rat \<Rightarrow> state \<Rightarrow> (error + unit) \<times> state" where
  "run_pipe p occ now s =
     (case prevent_default p occ of
        Inl e \<Rightarrow> (Inl e, s)
      | Inr pd \<Rightarrow>
          (let s1 = s\<lparr>trace := trace s @ pd\<rparr>
           in case pipe_alias p occ of
                Inl e \<Rightarrow> (Inl e, s1)
              | Inr alias \<Rightarrow>
                  (let functions = groups s1 (p_functions p)
                   in if hasOwnProperty functions alias
                      then
                        (case (if recording s1
                               then (case history s1 of
                                       None \<Rightarrow> Inl TypeError
                                     | Some a \<Rightarrow>
                                         Inr (s1\<lparr>hists := (hists s1)
                                                (a := AList.update (js_round now) (p_trigger p, alias)
                                                        (hists s1 a))\<rparr>))
                               else Inr s1) of
                           Inl e \<Rightarrow> (Inl e, s1)
                         | Inr s2 \<Rightarrow>
                             (case callEvent (get_prop functions alias) ''undefined'' s2 of
                                (Inl e, s3) \<Rightarrow> (Inl e, s3)
                              | (Inr r, s3) \<Rightarrow> (Inr (), s3)))
                      else (Inr (), s1))))"

section \<open>Sequences of operations\<close>

text \<open>
  The calls a user of one instance can make that change its state, and the state after
  a call, whether it returned or threw. The three getters change nothing.
\<close>
datatype operation =
    Reset settings
  | RestartHistory "bool option" rat
  | SetRecording bool
  | SetEventInformation ectx
  | SaveHistory "pkey option"
  | PlayHistory "hist option"
  | MakePipe pkey "(pkey \<times> bool) option"
  | Pipe pipe occurrence rat

fun step :: "operation \<Rightarrow> state \<Rightarrow> state" where
  "step (Reset cfg) s = reset cfg s"
| "step (RestartHistory keep_history now) s = snd (restartHistory keep_history now s)"
| "step (SetRecording b) s = setRecording b s"
| "step (SetEventInformation c) s = setEventInformation c s"
| "step (SaveHistory name) s = snd (saveHistory name s)"
| "step (PlayHistory events) s = playHistory events s"
| "step (MakePipe trigger extra) s = snd (makePipe trigger extra s)"
| "step (Pipe p occ now) s = snd (run_pipe p occ now s)"

fun run :: "operation list \<Rightarrow> state \<Rightarrow> state" where
  "run [] s = s"
| "run (x # xs) s = run xs (step x s)"

text \<open>The operations other than \<open>reset\<close>.\<close>
fun no_reset :: "operation \<Rightarrow> bool" where
  "no_reset (Reset cfg) = False"
| "no_reset x = True"

text \<open>The operations other than \<open>reset\<close> and \<open>restartHistory\<close>.\<close>
fun same_session :: "operation \<Rightarrow> bool" where
  "same_session (Reset cfg) = False"
| "same_session (RestartHistory keep_history now) = False"
| "same_session x = True"

section \<open>Notation for the statements\<close>

text \<open>The state after one call of a pipe, and after one call of \<open>restartHistory\<close>.\<close>
definition pipe_state :: "pipe \<Rightarrow> occurrence \<Rightarrow> rat \<Rightarrow> state \<Rightarrow> state" where
  "pipe_state p occ now s = snd (run_pipe p occ now s)"

definition restart_state :: "bool option \<Rightarrow> rat \<Rightarrow> state \<Rightarrow> state" where
  "restart_state keep_history now s = snd (restartHistory keep_history now s)"

text \<open>Whether \<open>histories.push\<close> has stopped being the array method.\<close>
definition push_hidden :: "state \<Rightarrow> bool" where
  "push_hidden s = (case array_push s None of Inl e \<Rightarrow> True | Inr s1 \<Rightarrow> False)"

section \<open>Example configurations\<close>

text \<open>
  One trigger group \<open>key-down\<close>, stored at address 0, with the handler \<open>Fn 1\<close> under the
  label \<open>move-left\<close>, and the alias \<open>move-left\<close> for the codes 37 and 65. A second group
  object, at address 1, holds the handler \<open>Fn 2\<close> under the same label; the example
  configuration does not use it.
\<close>

definition ex_heap :: "addr \<Rightarrow> group" where
  "ex_heap = ((\<lambda>r. Map.empty)(0 := [''move-left'' \<mapsto> Fn 1]))(Suc 0 := [''move-left'' \<mapsto> Fn 2])"

definition ex_settings :: settings where
  "ex_settings = \<lparr>s_triggers = Some [(''key-down'', 0)], s_recipients = None,
     s_event_information = Some 7, s_recording = None,
     s_aliases = Some [(''move-left'', [''37'', ''65''])]\<rparr>"

definition ex_state :: state where
  "ex_state = InputWritr (Some ex_settings) ex_heap (\<lambda>a. []) 0"

text \<open>The pipe \<open>makePipe("key-down", "keyCode")\<close> of the example.\<close>
definition ex_pipe :: pipe where
  "ex_pipe = \<lparr>p_trigger = ''key-down'', p_functions = 0, p_use_label = True,
     p_code_label = ''keyCode'', p_prevent_defaults = False\<rparr>"

text \<open>The event object \<open>{keyCode: k}\<close>, with a \<open>preventDefault\<close> method.\<close>
definition key_event :: "pkey \<Rightarrow> occurrence" where
  "key_event k = Value ''[object Object]'' [(''keyCode'', k)] True"

text \<open>
  A session with one recorded entry: the example instance, \<open>restartHistory()\<close> at time
  0, then \<open>pipe({keyCode: 37})\<close> at time 100.
\<close>
definition busy_state :: state where
  "busy_state = pipe_state ex_pipe (key_event ''37'') 100 (restart_state None 0 ex_state)"

text \<open>Two aliases that share the code 37, over a group with a handler for each label.\<close>
definition clash_heap :: "addr \<Rightarrow> group" where
  "clash_heap = (\<lambda>r. Map.empty)(0 := [''left'' \<mapsto> Fn 1, ''right'' \<mapsto> Fn 2])"

definition clash_settings :: settings where
  "clash_settings = \<lparr>s_triggers = Some [(''key-down'', 0)], s_recipients = None,
     s_event_information = None, s_recording = None,
     s_aliases = Some [(''left'', [''37'']), (''right'', [''37''])]\<rparr>"

text \<open>
  An alias \<open>jump\<close> for the code 32, over the group at address 0, which has no handler
  under \<open>jump\<close>; and the pipe \<open>makePipe("key-down")\<close>.
\<close>
definition jump_settings :: settings where
  "jump_settings = \<lparr>s_triggers = Some [(''key-down'', 0)], s_recipients = None,
     s_event_information = Some 7, s_recording = None,
     s_aliases = Some [(''jump'', [''32''])]\<rparr>"

definition jump_pipe :: pipe where
  "jump_pipe = \<lparr>p_trigger = ''key-down'', p_functions = 0, p_use_label = False,
     p_code_label = ''undefined'', p_prevent_defaults = False\<rparr>"

text \<open>
  A second configuration: \<open>key-down\<close> names the group at address 1, the alias
  \<open>move-left\<close> lists the code 39 as well, and recording is off.
\<close>
definition other_settings :: settings where
  "other_settings = \<lparr>s_triggers = Some [(''key-down'', Suc 0)], s_recipients = None,
     s_event_information = Some 8, s_recording = Some False,
     s_aliases = Some [(''move-left'', [''37'', ''65'', ''39''])]\<rparr>"

section \<open>Basic facts\<close>

lemma floor_numeral_quotient: "\<lfloor>(numeral a / numeral b :: rat)\<rfloor> = numeral a div numeral b"
  by (metis floor_divide_of_int_eq of_int_numeral)

lemma js_round_of_int: "js_round (of_int n) = n"
  by (simp add: js_round_def floor_eq_iff)

lemma js_round_mono: "x \<le> y \<Longrightarrow> js_round x \<le> js_round y"
  by (simp add: js_round_def floor_mono)

lemma js_round_near: "x - 1 / 2 < of_int (js_round x)"
  unfolding js_round_def by linarith

lemmas ex_defs = ex_state_def InputWritr_def reset_def resetAliases_def ex_settings_def
  ex_heap_def ex_pipe_def no_settings_def key_event_def

lemmas op_defs = restartHistory_def restart_state_def pipe_state_def saveHistory_def
  getHistory_def getHistories_def playHistory_def makePipe_def run_pipe_def callEvent_def
  pipe_alias_def prevent_default_def array_push_def array_index_def digit_of_def
  hasOwnProperty_def get_prop_def array_set_def for_in_def is_index_def round_diff_def
  js_round_def makeEventCall_def quote_def Let_def floor_numeral_quotient

lemma ex_state_groups: "groups ex_state 0 = [''move-left'' \<mapsto> Fn 1, ''37'' \<mapsto> Fn 1, ''65'' \<mapsto> Fn 1]"
  by (simp add: ex_defs get_prop_def)

lemma ex_pipe_sel:
  "p_trigger ex_pipe = ''key-down''" "p_functions ex_pipe = 0" "p_use_label ex_pipe"
  "p_code_label ex_pipe = ''keyCode''" "\<not> p_prevent_defaults ex_pipe"
  by (simp_all add: ex_pipe_def)

lemma ex_pipe_occ:
  "prevent_default ex_pipe occ = Inr []"
  "pipe_alias ex_pipe (key_event k) = Inr k"
  by (simp_all add: prevent_default_def pipe_alias_def ex_pipe_def key_event_def)

lemma jump_pipe_sel: "p_functions jump_pipe = 0"
  by (simp add: jump_pipe_def)


lemma ex_makePipe: "makePipe ''key-down'' (Some (''keyCode'', False)) ex_state = (Some ex_pipe, ex_state)"
  by (simp add: ex_defs makePipe_def)

subsection \<open>What a pipe call leaves alone\<close>

lemma run_pipe_frame:
  "history (snd (run_pipe p occ now s)) = history s"
  "recording (snd (run_pipe p occ now s)) = recording s"
  "groups (snd (run_pipe p occ now s)) = groups s"
  "triggers (snd (run_pipe p occ now s)) = triggers s"
  "histories (snd (run_pipe p occ now s)) = histories s"
  "named_histories (snd (run_pipe p occ now s)) = named_histories s"
  "starting_time (snd (run_pipe p occ now s)) = starting_time s"
  by (auto simp: run_pipe_def callEvent_def Let_def
      split: val.splits option.splits sum.splits prod.splits)

subsection \<open>The cases of a pipe call\<close>

text \<open>The code is not a key of the pipe's group.\<close>
lemma run_pipe_miss:
  assumes "prevent_default p occ = Inr pd" and "pipe_alias p occ = Inr c"
    and "groups s (p_functions p) c = None"
  shows "run_pipe p occ now s = (Inr (), s\<lparr>trace := trace s @ pd\<rparr>)"
  using assms by (simp add: run_pipe_def Let_def hasOwnProperty_def)

text \<open>The code is bound to a function; the flag is off.\<close>
lemma run_pipe_handler_off:
  assumes "prevent_default p occ = Inr pd" and "pipe_alias p occ = Inr c"
    and "groups s (p_functions p) c = Some (Fn h)"
    and "\<not> recording s"
  shows "run_pipe p occ now s =
     (Inr (), s\<lparr>trace := trace s @ pd @ [Invoke h (event_information s)]\<rparr>)"
  using assms
  by (simp add: run_pipe_def callEvent_def Let_def hasOwnProperty_def get_prop_def)

text \<open>The code is bound to a function; the flag is on and there is a history.\<close>
lemma run_pipe_handler_on:
  assumes "prevent_default p occ = Inr pd" and "pipe_alias p occ = Inr c"
    and "groups s (p_functions p) c = Some (Fn h)"
    and "recording s" and "history s = Some a"
  shows "run_pipe p occ now s =
     (Inr (), s\<lparr>trace := trace s @ pd @ [Invoke h (event_information s)],
                 hists := (hists s)(a := AList.update (js_round now) (p_trigger p, c) (hists s a))\<rparr>)"
  using assms
  by (simp add: run_pipe_def callEvent_def Let_def hasOwnProperty_def get_prop_def)

text \<open>The code is a key of the group, bound to \<open>undefined\<close>.\<close>
lemma run_pipe_blank:
  assumes "prevent_default p occ = Inr pd" and "pipe_alias p occ = Inr c"
    and "groups s (p_functions p) c = Some Undefined"
    and "recording s \<longrightarrow> history s \<noteq> None"
  shows "fst (run_pipe p occ now s) = Inr ()"
    and "trace (snd (run_pipe p occ now s)) = trace s @ pd @ [Warn ''Blank event given, ignoring it.'']"
  using assms
  by (auto simp: run_pipe_def callEvent_def Let_def hasOwnProperty_def get_prop_def
      split: option.splits)

text \<open>The history write of a recording call, whatever the code is bound to.\<close>
lemma run_pipe_recorded:
  assumes "prevent_default p occ = Inr pd" and "pipe_alias p occ = Inr c"
    and "hasOwnProperty (groups s (p_functions p)) c"
    and "recording s" and "history s = Some a"
  shows "hists (snd (run_pipe p occ now s)) =
     (hists s)(a := AList.update (js_round now) (p_trigger p, c) (hists s a))"
  using assms
  by (auto simp: run_pipe_def callEvent_def Let_def
      split: val.splits option.splits sum.splits prod.splits)

text \<open>An argument that is \<open>undefined\<close>, on a pipe made with a code label: the pipe throws.\<close>
lemma run_pipe_undefined_throws:
  assumes "p_use_label p"
  shows "fst (run_pipe p OUndefined now s) = Inl TypeError"
    and "hists (snd (run_pipe p OUndefined now s)) = hists s"
  using assms
  by (auto simp: run_pipe_def pipe_alias_def prevent_default_def Let_def)

lemma makePipe_Some:
  assumes "makePipe t extra s = (Some p, s')"
  shows "s' = s" and "p_trigger p = t" and "map_of (triggers s) t = Some (p_functions p)"
    and "p_prevent_defaults p = (case extra of None \<Rightarrow> False | Some (l, pd) \<Rightarrow> pd)"
  using assms by (auto simp: makePipe_def split: option.splits)

subsection \<open>What reset and the other operations leave alone\<close>

lemma reset_fields:
  "histories (reset cfg s) = []"
  "named_histories (reset cfg s) = []"
  "triggers (reset cfg s) = (case s_triggers cfg of None \<Rightarrow> [] | Some t \<Rightarrow> t)"
  "recipients (reset cfg s) = s_recipients cfg"
  "event_information (reset cfg s) = s_event_information cfg"
  "recording (reset cfg s) = (case s_recording cfg of None \<Rightarrow> True | Some b \<Rightarrow> b)"
  "aliases (reset cfg s) = (case s_aliases cfg of None \<Rightarrow> [] | Some a \<Rightarrow> a)"
  "history (reset cfg s) = history s"
  "hists (reset cfg s) = hists s"
  "starting_time (reset cfg s) = starting_time s"
  "trace (reset cfg s) = trace s"
  "fresh (reset cfg s) = fresh s"
  "groups (reset cfg s) =
     each_alias (case s_aliases cfg of None \<Rightarrow> [] | Some a \<Rightarrow> a)
       (case s_triggers cfg of None \<Rightarrow> [] | Some t \<Rightarrow> t) (groups s)"
  by (simp_all add: reset_def resetAliases_def)

lemma restartHistory_fields:
  "groups (snd (restartHistory k now s)) = groups s"
  "triggers (snd (restartHistory k now s)) = triggers s"
  "recording (snd (restartHistory k now s)) = recording s"
  "event_information (snd (restartHistory k now s)) = event_information s"
  "trace (snd (restartHistory k now s)) = trace s"
  "named_histories (snd (restartHistory k now s)) = named_histories s"
  by (auto simp: restartHistory_def array_push_def Let_def split: option.splits)

lemma saveHistory_fields:
  "groups (snd (saveHistory name s)) = groups s"
  "recording (snd (saveHistory name s)) = recording s"
  "history (snd (saveHistory name s)) = history s"
  "hists (snd (saveHistory name s)) = hists s"
  by (auto simp: saveHistory_def array_push_def Let_def split: option.splits)

lemma step_groups: "no_reset x \<Longrightarrow> groups (step x s) = groups s"
  by (cases x)
    (simp_all add: restartHistory_fields saveHistory_fields run_pipe_frame
      setRecording_def setEventInformation_def playHistory_def Let_def makePipe_def
      split: option.splits)

lemma run_groups: "list_all no_reset ops \<Longrightarrow> groups (run ops s) = groups s"
  by (induction ops arbitrary: s) (simp_all add: step_groups)

subsection \<open>The loops of resetAliases in closed form\<close>

lemma get_prop_assign_self: "get_prop (g(c \<mapsto> get_prop g a)) a = get_prop g a"
  by (simp add: get_prop_def)

lemma assign_codes_eq:
  "assign_codes a cs g = (\<lambda>k. if k \<in> set cs then Some (get_prop g a) else g k)"
proof (induction cs arbitrary: g)
  case Nil
  show ?case by simp
next
  case (Cons c cs)
  show ?case
    by (simp add: Cons.IH get_prop_assign_self fun_eq_iff)
qed

lemma get_prop_assign_codes:
  "get_prop (assign_codes a cs g) k = (if k \<in> set cs then get_prop g a else get_prop g k)"
  by (simp add: assign_codes_eq get_prop_def)

lemma assign_codes_idem: "assign_codes a cs (assign_codes a cs g) = assign_codes a cs g"
  by (rule ext) (simp add: assign_codes_eq [of a cs "assign_codes a cs g"] get_prop_assign_codes,
      simp add: assign_codes_eq)

lemma each_trigger_eq:
  "each_trigger a cs ts h = (\<lambda>r. if r \<in> snd ` set ts then assign_codes a cs (h r) else h r)"
proof (induction ts arbitrary: h)
  case Nil
  show ?case by simp
next
  case (Cons tr ts)
  obtain t r0 where tr: "tr = (t, r0)" by (cases tr)
  show ?case
    unfolding tr by (rule ext) (simp add: Cons.IH assign_codes_idem)
qed

lemma each_alias_append:
  "each_alias (xs @ ys) ts h = each_alias ys ts (each_alias xs ts h)"
  by (induction xs ts h rule: each_alias.induct) simp_all

text \<open>A key that no alias lists among its codes keeps its entry.\<close>
lemma each_alias_other_key:
  assumes "\<forall>(b, ds) \<in> set als. k \<notin> set ds"
  shows "each_alias als ts h r k = h r k"
  using assms
proof (induction als ts h rule: each_alias.induct)
  case (1 ts h)
  show ?case by simp
next
  case (2 b ds als ts h)
  then have "each_alias als ts (each_trigger b ds ts h) r k = each_trigger b ds ts h r k"
    by simp
  moreover from "2.prems" have "k \<notin> set ds" by simp
  then have "each_trigger b ds ts h r k = h r k"
    by (simp add: each_trigger_eq assign_codes_eq)
  ultimately show ?case by simp
qed

text \<open>A group that the configuration does not name is left as it is.\<close>
lemma each_alias_other_group:
  assumes "r \<notin> snd ` set ts"
  shows "each_alias als ts h r = h r"
  using assms
  by (induction als ts h rule: each_alias.induct) (simp_all add: each_trigger_eq)

text \<open>Right after the turn of the alias \<open>a\<close>, each of its codes holds what the label holds.\<close>
lemma each_trigger_binds:
  assumes "r \<in> snd ` set ts" and "c \<in> set cs"
  shows "each_trigger a cs ts h r c = Some (get_prop (h r) a)"
    and "get_prop (each_trigger a cs ts h r) a = get_prop (h r) a"
proof -
  from assms show "each_trigger a cs ts h r c = Some (get_prop (h r) a)"
    by (simp add: each_trigger_eq assign_codes_eq)
  from assms show "get_prop (each_trigger a cs ts h r) a = get_prop (h r) a"
    by (simp add: each_trigger_eq get_prop_assign_codes)
qed

lemma get_prop_cong: "g k = g' k' \<Longrightarrow> get_prop g k = get_prop g' k'"
  by (simp add: get_prop_def)

subsection \<open>Association lists with distinct keys\<close>


text \<open>
  The keys of every history object stay distinct, as the keys of an object are: a new
  history is empty, and a pipe writes with \<open>AList.update\<close>.
\<close>
lemma restartHistory_distinct_keys:
  assumes "\<And>b. distinct (map fst (hists s b))"
  shows "distinct (map fst (hists (restart_state k now s) b))"
  using assms
  by (auto simp: restart_state_def restartHistory_def array_push_def Let_def split: option.splits)

lemma run_pipe_distinct_keys:
  assumes "\<And>b. distinct (map fst (hists s b))"
  shows "distinct (map fst (hists (pipe_state p occ now s) b))"
  using assms
  by (auto simp: pipe_state_def run_pipe_def callEvent_def Let_def distinct_update
      split: val.splits option.splits sum.splits prod.splits)

subsection \<open>Writing into an array\<close>

lemma array_set_nth: "i < length (array_set xs i v) \<and> array_set xs i v ! i = v"
  by (simp add: array_set_def nth_append)

lemma array_set_other:
  assumes "i < length xs" and "i \<noteq> j"
  shows "i < length (array_set xs j v) \<and> array_set xs j v ! i = xs ! i"
  using assms by (simp add: array_set_def nth_append)

lemma array_set_mem: "v \<in> set (array_set xs i v)"
  using array_set_nth [of i xs v] by (metis nth_mem)

section \<open>The claims\<close>

subsection \<open>Replay\<close>

text \<open>
  What \<open>playHistory\<close> hands to \<open>setTimeout\<close>, for any history: the rounded delay as the
  first argument, no second argument, and never the closure \<open>call\<close>.
\<close>
lemma schedule_eq:
  "schedule es st = map (\<lambda>p. SetTimeout (TNumber (round_diff (fst p) st)) None) es"
  by (induction es st rule: schedule.induct) (simp_all add: Let_def)

text \<open>
  C1. The history \<open>{100: ["key-down", 37], 250: ["key-down", 65]}\<close> played on the
  example instance, the session started at time 0. The claim asks for two deferred calls
  of \<open>callEvent\<close>, at the delays 100 and 250. The code calls \<open>setTimeout\<close> twice with a
  number as its only argument: the closure is never handed over, so no handler is
  scheduled.
\<close>
theorem playHistory_schedules_no_callback:
  "trace (playHistory (Some [(100, (''key-down'', ''37'')), (250, (''key-down'', ''65''))])
            (restart_state (Some True) 0 ex_state))
   = [SetTimeout (TNumber (Some 100)) None, SetTimeout (TNumber (Some 250)) None]"
  by (simp add: ex_defs op_defs)

text \<open>
  The closure itself does what the claim says of it: it calls the handler bound under
  the trigger and the code, and writes no history entry.
\<close>
lemma run_closure_calls_handler:
  assumes "map_of (triggers s) t = Some r" and "groups s r c = Some (Fn h)" and "t \<noteq> []"
  shows "run_closure (makeEventCall (t, c)) s =
     (Inr (), s\<lparr>trace := trace s @ [Invoke h (event_information s)]\<rparr>)"
  using assms by (simp add: makeEventCall_def callEvent_def get_prop_def)

subsection \<open>Restarting the history\<close>

text \<open>
  C2. What \<open>restartHistory\<close> does, for every argument and state. The outgoing history is
  pushed onto the archive exactly when an argument is passed, it is true, and a history
  exists; with no argument (\<open>None\<close>) nothing is archived, although the function's
  documentation has the argument default to true. Unless that push throws (the array's
  \<open>push\<close> is hidden by an own property), the call returns, the active history is a new
  empty object and the starting time is the Clock's reading.
\<close>
theorem restartHistory_effect:
  "(if history s \<noteq> None \<and> keep_history = Some True \<and> push_hidden s
    then restartHistory keep_history now s = (Inl TypeError, s)
    else fst (restartHistory keep_history now s) = Inr ()
       \<and> histories (restart_state keep_history now s) =
           (if history s \<noteq> None \<and> keep_history = Some True
            then histories s @ [history s] else histories s)
       \<and> getHistory None (restart_state keep_history now s) = Stored (Some (fresh s))
       \<and> hists (restart_state keep_history now s) (fresh s) = []
       \<and> starting_time (restart_state keep_history now s) = Some now)
   \<and> fst (restartHistory None now s) = Inr ()
   \<and> histories (restart_state None now s) = histories s"
  by (auto simp: restartHistory_def restart_state_def array_push_def push_hidden_def
      getHistory_def Let_def split: option.splits)

subsection \<open>callEvent\<close>

text \<open>
  C6. \<open>callEvent("key-down", 99)\<close> on the example instance, where the group \<open>key-down\<close>
  has no entry 99: the blank check has passed on the label, the lookup yields
  \<open>undefined\<close>, and calling it throws. No warning is logged.
\<close>
theorem callEvent_unbound_label_throws:
  "callEvent (Str ''key-down'') ''99'' ex_state = (Inl TypeError, ex_state)"
  by (simp add: ex_defs callEvent_def get_prop_def)

text \<open>The cases of \<open>callEvent\<close> that the claim describes rightly.\<close>
lemma callEvent_blank:
  "\<not> truthy event \<Longrightarrow> callEvent event keycode s =
     (Inr RUndefined, s\<lparr>trace := trace s @ [Warn ''Blank event given, ignoring it.'']\<rparr>)"
  by (simp add: callEvent_def)

lemma callEvent_direct:
  "callEvent (Fn h) keycode s =
     (Inr (RResult h (event_information s)),
      s\<lparr>trace := trace s @ [Invoke h (event_information s)]\<rparr>)"
  by (simp add: callEvent_def)

subsection \<open>reset\<close>

lemma busy_state_history:
  "history busy_state = Some 0 \<and> hists busy_state 0 = [(100, (''key-down'', ''37''))]
   \<and> starting_time busy_state = Some 0 \<and> trace busy_state = [Invoke 1 (Some 7)]"
  by (simp add: busy_state_def ex_defs op_defs)

text \<open>
  C7, as stated, fails: \<open>reset\<close> on a session with a recorded entry leaves the active
  history with its entry.
\<close>
theorem reset_keeps_history_counterexample:
  "getHistory None (reset ex_settings busy_state) = Stored (Some 0)
   \<and> hists (reset ex_settings busy_state) 0 = [(100, (''key-down'', ''37''))]
   \<and> starting_time (reset ex_settings busy_state) = Some 0"
  using busy_state_history by (simp add: reset_fields getHistory_def)

text \<open>
  C7, amended. \<open>reset\<close> replaces the trigger groups, the recipients, the event
  information, the recording flag (true unless given) and the aliases, and empties the
  archive; it leaves the active history, every history object and the starting time as
  they were. After construction the active history and the starting time are still
  undefined.
\<close>
theorem reset_replaces_configuration:
  "histories (reset cfg s) = []
   \<and> named_histories (reset cfg s) = []
   \<and> triggers (reset cfg s) = (case s_triggers cfg of None \<Rightarrow> [] | Some t \<Rightarrow> t)
   \<and> recipients (reset cfg s) = s_recipients cfg
   \<and> event_information (reset cfg s) = s_event_information cfg
   \<and> recording (reset cfg s) = (case s_recording cfg of None \<Rightarrow> True | Some b \<Rightarrow> b)
   \<and> aliases (reset cfg s) = (case s_aliases cfg of None \<Rightarrow> [] | Some a \<Rightarrow> a)
   \<and> history (reset cfg s) = history s
   \<and> hists (reset cfg s) = hists s
   \<and> starting_time (reset cfg s) = starting_time s
   \<and> history (InputWritr c heap hheap nxt) = None
   \<and> starting_time (InputWritr c heap hheap nxt) = None"
  by (simp add: reset_fields InputWritr_def)

subsection \<open>Alias resolution\<close>

text \<open>
  C3, as stated, fails when two aliases share a code: with \<open>left\<close> and \<open>right\<close> both
  listing 37, the entry 37 ends as the handler of \<open>right\<close>, the alias visited last, and
  differs from the entry at \<open>left\<close>.
\<close>
theorem shared_code_counterexample:
  "get_prop (groups (reset clash_settings (InputWritr None clash_heap (\<lambda>a. []) 0)) 0) ''left'' = Fn 1
   \<and> get_prop (groups (reset clash_settings (InputWritr None clash_heap (\<lambda>a. []) 0)) 0) ''37'' = Fn 2"
  by (simp add: clash_settings_def clash_heap_def ex_defs get_prop_def)

text \<open>
  C3, amended. After \<open>reset\<close>, for an alias \<open>a\<close> with the code \<open>c\<close> and a trigger group
  of the configuration: the entry at \<open>c\<close> is the entry at \<open>a\<close>, provided no alias
  visited after \<open>a\<close> lists \<open>a\<close> or \<open>c\<close> among its codes.
\<close>
theorem reset_binds_alias_codes:
  assumes "s_aliases cfg = Some (xs @ (a, cs) # ys)"
    and "s_triggers cfg = Some trigs"
    and "(t, r) \<in> set trigs"
    and "c \<in> set cs"
    and "\<forall>(b, ds) \<in> set ys. a \<notin> set ds \<and> c \<notin> set ds"
  shows "get_prop (groups (reset cfg s) r) c = get_prop (groups (reset cfg s) r) a"
proof -
  define h0 where "h0 = each_alias xs trigs (groups s)"
  define h1 where "h1 = each_trigger a cs trigs h0"
  have g: "groups (reset cfg s) = each_alias ys trigs h1"
    using assms(1,2) by (simp add: reset_fields each_alias_append h0_def h1_def)
  from assms(3) have r: "r \<in> snd ` set trigs" by force
  from assms(5) have "\<forall>(b, ds) \<in> set ys. c \<notin> set ds" by auto
  then have c: "each_alias ys trigs h1 r c = h1 r c" by (rule each_alias_other_key)
  from assms(5) have "\<forall>(b, ds) \<in> set ys. a \<notin> set ds" by auto
  then have a: "each_alias ys trigs h1 r a = h1 r a" by (rule each_alias_other_key)
  have "get_prop (each_alias ys trigs h1 r) c = get_prop (h1 r) c"
    using c by (rule get_prop_cong)
  also have "\<dots> = get_prop (h0 r) a"
    using each_trigger_binds(1) [OF r assms(4), of a h0] by (simp add: h1_def get_prop_def)
  also have "\<dots> = get_prop (h1 r) a"
    using each_trigger_binds(2) [OF r assms(4), of a h0] by (simp add: h1_def)
  also have "\<dots> = get_prop (each_alias ys trigs h1 r) a"
    using a by (rule get_prop_cong [symmetric])
  finally show ?thesis by (simp add: g)
qed

theorem reset_binds_alias_codes_witness:
  "get_prop (groups (reset ex_settings (InputWritr None ex_heap (\<lambda>a. []) 0)) 0) ''65''
   = get_prop (groups (reset ex_settings (InputWritr None ex_heap (\<lambda>a. []) 0)) 0) ''move-left''
   \<and> get_prop (groups (reset ex_settings (InputWritr None ex_heap (\<lambda>a. []) 0)) 0) ''65'' = Fn 1"
proof -
  have "get_prop (groups (reset ex_settings (InputWritr None ex_heap (\<lambda>a. []) 0)) 0) ''65''
   = get_prop (groups (reset ex_settings (InputWritr None ex_heap (\<lambda>a. []) 0)) 0) ''move-left''"
    by (rule reset_binds_alias_codes [where xs = "[]" and cs = "[''37'', ''65'']" and ys = "[]"
          and trigs = "[(''key-down'', 0)]" and t = "''key-down''"])
      (simp_all add: ex_settings_def)
  moreover have "get_prop (groups (reset ex_settings (InputWritr None ex_heap (\<lambda>a. []) 0)) 0) ''move-left'' = Fn 1"
    by (simp add: ex_defs get_prop_def)
  ultimately show ?thesis by simp
qed

text \<open>
  C5, as stated, fails. The alias \<open>jump\<close> lists the code 32 and the group \<open>key-down\<close> has
  no handler under \<open>jump\<close>. After \<open>reset\<close> and \<open>restartHistory()\<close> at time 0, the call
  \<open>pipe(32)\<close> at time 100 passes the key check, since 32 is now a key of the group bound
  to \<open>undefined\<close>: a history entry is written and \<open>callEvent\<close> logs its warning.
\<close>
theorem unbound_alias_counterexample:
  "trace (pipe_state jump_pipe (Value ''32'' [] False) 100
       (restart_state None 0 (InputWritr (Some jump_settings) ex_heap (\<lambda>a. []) 0)))
     = [Warn ''Blank event given, ignoring it.'']
   \<and> hists (pipe_state jump_pipe (Value ''32'' [] False) 100
       (restart_state None 0 (InputWritr (Some jump_settings) ex_heap (\<lambda>a. []) 0))) 0
     = [(100, (''key-down'', ''32''))]"
  by (simp add: jump_pipe_def jump_settings_def ex_defs op_defs)

text \<open>
  C5, amended. Let the alias \<open>a\<close> list the code \<open>c\<close>, let a trigger group of the
  configuration hold no handler under \<open>a\<close> when \<open>reset\<close> runs, and let no other alias
  write to \<open>a\<close> before or to \<open>c\<close> after the turn of \<open>a\<close>. Then \<open>reset\<close> makes \<open>c\<close> a
  key of that group bound to \<open>undefined\<close>. A pipe over the group, called with the code
  \<open>c\<close> after any operations other than a further \<open>reset\<close>, when the flag is off or an
  active history exists, returns normally, calls no handler, and has \<open>callEvent\<close> log its
  blank-event warning. (The argument is one the pipe's first two statements accept:
  \<open>prevent_default\<close> and \<open>pipe_alias\<close> do not throw.)
\<close>
theorem unbound_alias_dispatch:
  assumes "s_aliases cfg = Some (xs @ (a, cs) # ys)"
    and "s_triggers cfg = Some trigs"
    and "c \<in> set cs"
    and "\<forall>(b, ds) \<in> set xs. a \<notin> set ds"
    and "\<forall>(b, ds) \<in> set ys. c \<notin> set ds"
    and "makePipe t extra (reset cfg s) = (Some p, s')"
    and "get_prop (groups s (p_functions p)) a = Undefined"
    and "list_all no_reset ops"
    and "d = run ops s'"
    and "recording d \<longrightarrow> history d \<noteq> None"
    and "prevent_default p occ = Inr pd"
    and "pipe_alias p occ = Inr c"
  shows "groups (reset cfg s) (p_functions p) c = Some Undefined
    \<and> fst (run_pipe p occ now d) = Inr ()
    \<and> trace (pipe_state p occ now d) = trace d @ pd @ [Warn ''Blank event given, ignoring it.'']"
proof -
  define r where "r = p_functions p"
  define h0 where "h0 = each_alias xs trigs (groups s)"
  define h1 where "h1 = each_trigger a cs trigs h0"
  have s': "s' = reset cfg s" and m: "map_of (triggers (reset cfg s)) t = Some r"
    using makePipe_Some(1,3) [OF assms(6)] by (simp_all add: r_def)
  from m assms(2) have "map_of trigs t = Some r" by (simp add: reset_fields)
  then have "(t, r) \<in> set trigs" by (rule map_of_SomeD)
  then have r: "r \<in> snd ` set trigs" by force
  have g: "groups (reset cfg s) = each_alias ys trigs h1"
    using assms(1,2) by (simp add: reset_fields each_alias_append h0_def h1_def)
  have "h0 r a = groups s r a"
    unfolding h0_def using assms(4) by (rule each_alias_other_key)
  then have "get_prop (h0 r) a = get_prop (groups s r) a" by (rule get_prop_cong)
  with assms(7) have u: "get_prop (h0 r) a = Undefined" by (simp add: r_def)
  have "each_alias ys trigs h1 r c = h1 r c"
    using assms(5) by (rule each_alias_other_key)
  also have "\<dots> = Some Undefined"
    using each_trigger_binds(1) [OF r assms(3), of a h0] u by (simp add: h1_def)
  finally have bound: "groups (reset cfg s) r c = Some Undefined" by (simp add: g)
  have "groups d = groups (reset cfg s)"
    unfolding assms(9) s' using assms(8) by (rule run_groups)
  with bound have gd: "groups d (p_functions p) c = Some Undefined"
    by (simp add: r_def)
  from run_pipe_blank [OF assms(11) assms(12) gd assms(10), of now] bound show ?thesis
    by (simp add: pipe_state_def r_def)
qed

text \<open>
  The example of the counterexample, with the dispatch after \<open>restartHistory()\<close>, a
  \<open>saveHistory()\<close> and a first call of the pipe.
\<close>
theorem unbound_alias_dispatch_witness:
  "groups (reset jump_settings (InputWritr None ex_heap (\<lambda>a. []) 0)) 0 ''32'' = Some Undefined
   \<and> fst (run_pipe jump_pipe (Value ''32'' [] False) 250
        (run [RestartHistory None 0, SaveHistory None, Pipe jump_pipe (Value ''32'' [] False) 100]
          (reset jump_settings (InputWritr None ex_heap (\<lambda>a. []) 0)))) = Inr ()
   \<and> trace (pipe_state jump_pipe (Value ''32'' [] False) 250
        (run [RestartHistory None 0, SaveHistory None, Pipe jump_pipe (Value ''32'' [] False) 100]
          (reset jump_settings (InputWritr None ex_heap (\<lambda>a. []) 0))))
      = [Warn ''Blank event given, ignoring it.'', Warn ''Blank event given, ignoring it.'']"
proof -
  let ?s = "InputWritr None ex_heap (\<lambda>a. []) 0"
  let ?occ = "Value ''32'' [] False"
  let ?ops = "[RestartHistory None 0, SaveHistory None, Pipe jump_pipe ?occ 100]"
  let ?d = "run ?ops (reset jump_settings ?s)"
  have mk: "makePipe ''key-down'' None (reset jump_settings ?s) = (Some jump_pipe, reset jump_settings ?s)"
    by (simp add: makePipe_def reset_fields jump_settings_def jump_pipe_def)
  have d: "history ?d = Some 0" "trace ?d = [Warn ''Blank event given, ignoring it.'']"
    by (simp_all add: jump_pipe_def jump_settings_def ex_defs op_defs)
  have h: "recording ?d \<longrightarrow> history ?d \<noteq> None"
    using d(1) by simp
  have "groups (reset jump_settings ?s) (p_functions jump_pipe) ''32'' = Some Undefined
    \<and> fst (run_pipe jump_pipe ?occ 250 ?d) = Inr ()
    \<and> trace (pipe_state jump_pipe ?occ 250 ?d)
        = trace ?d @ [] @ [Warn ''Blank event given, ignoring it.'']"
    by (rule unbound_alias_dispatch [where xs = "[]" and a = "''jump''" and cs = "[''32'']"
          and ys = "[]" and trigs = "[(''key-down'', 0)]" and ops = ?ops,
          OF _ _ _ _ _ mk _ _ refl h])
      (simp_all add: jump_settings_def jump_pipe_def pipe_alias_def prevent_default_def
         ex_defs get_prop_def)
  then show ?thesis
    using d(2) by (simp add: jump_pipe_sel)
qed

subsection \<open>Dispatch through a pipe\<close>

text \<open>
  C4, as stated, fails. The session starts at the Clock reading 100.4. The call
  \<open>pipe({keyCode: 37})\<close> at 100.45 writes its entry at the key 100, below the starting
  time; the call \<open>pipe({keyCode: 65})\<close> at 100.49 writes at the key 100 again and the
  history still has one entry.
\<close>
theorem rounded_key_counterexample:
  "hists (pipe_state ex_pipe (key_event ''37'') (2009 / 20)
       (restart_state None (502 / 5) ex_state)) 0
     = [(100, (''key-down'', ''37''))]
   \<and> hists (pipe_state ex_pipe (key_event ''65'') (10049 / 100)
       (pipe_state ex_pipe (key_event ''37'') (2009 / 20)
         (restart_state None (502 / 5) ex_state))) 0
     = [(100, (''key-down'', ''65''))]
   \<and> starting_time (pipe_state ex_pipe (key_event ''37'') (2009 / 20)
       (restart_state None (502 / 5) ex_state)) = Some (502 / 5)
   \<and> (of_int 100 :: rat) < 502 / 5"
  by (simp add: ex_defs op_defs)

text \<open>
  C4, amended. Let \<open>p\<close> be a pipe made by \<open>makePipe\<close> for the trigger \<open>t\<close>, called with
  an argument that its first two statements accept and whose code \<open>c\<close> is bound to a
  function \<open>h\<close> in the pipe's group. If the flag is off, the call returns normally and
  its only effect is to call \<open>h\<close> with the event information (after the
  \<open>preventDefault\<close> call, if any): no history changes. If the flag is on and an active
  history \<open>a\<close> exists, the call returns normally, writes the entry \<open>(t, c)\<close> into \<open>a\<close> at
  the key \<open>Math.round(now)\<close>, in place of an entry already at that key and as a new entry
  otherwise, and calls \<open>h\<close>; nothing else changes. When the Clock's reading \<open>now\<close> is not
  before the starting time \<open>t0\<close>, that key is at least \<open>t0\<close> rounded, and more than \<open>t0\<close>
  less one half.
\<close>
theorem pipe_dispatch:
  assumes "makePipe t extra s0 = (Some p, s0')"
    and "prevent_default p occ = Inr pd"
    and "pipe_alias p occ = Inr c"
    and "groups s (p_functions p) c = Some (Fn h)"
  shows "(\<not> recording s \<longrightarrow>
           run_pipe p occ now s =
             (Inr (), s\<lparr>trace := trace s @ pd @ [Invoke h (event_information s)]\<rparr>))
    \<and> (recording s \<longrightarrow> history s = Some a \<longrightarrow>
           run_pipe p occ now s =
             (Inr (), s\<lparr>trace := trace s @ pd @ [Invoke h (event_information s)],
                         hists := (hists s)(a := AList.update (js_round now) (t, c) (hists s a))\<rparr>)
           \<and> (starting_time s = Some t0 \<longrightarrow> t0 \<le> now \<longrightarrow>
                js_round t0 \<le> js_round now \<and> t0 - 1 / 2 < of_int (js_round now)))"
proof -
  have t: "p_trigger p = t"
    using assms(1) by (rule makePipe_Some(2))
  have off: "\<not> recording s \<Longrightarrow> run_pipe p occ now s =
      (Inr (), s\<lparr>trace := trace s @ pd @ [Invoke h (event_information s)]\<rparr>)"
    using assms(2,3,4) by (rule run_pipe_handler_off)
  have on: "recording s \<Longrightarrow> history s = Some a \<Longrightarrow> run_pipe p occ now s =
      (Inr (), s\<lparr>trace := trace s @ pd @ [Invoke h (event_information s)],
                  hists := (hists s)(a := AList.update (js_round now) (t, c) (hists s a))\<rparr>)"
    using run_pipe_handler_on [OF assms(2,3,4), of a now] t by simp
  have rnd: "t0 \<le> now \<Longrightarrow> js_round t0 \<le> js_round now \<and> t0 - 1 / 2 < of_int (js_round now)"
    using js_round_mono [of t0 now] js_round_near [of now] by simp
  from off on rnd show ?thesis by blast
qed

text \<open>
  The example pipe: recording, in the session started at 100.4; and not recording, on
  an instance that has no history yet.
\<close>
theorem pipe_dispatch_witness:
  "fst (run_pipe ex_pipe (key_event ''37'') (2009 / 20) (restart_state None (502 / 5) ex_state)) = Inr ()
   \<and> trace (pipe_state ex_pipe (key_event ''37'') (2009 / 20)
         (restart_state None (502 / 5) ex_state)) = [Invoke 1 (Some 7)]
   \<and> hists (pipe_state ex_pipe (key_event ''37'') (2009 / 20)
         (restart_state None (502 / 5) ex_state)) 0 = [(100, (''key-down'', ''37''))]
   \<and> js_round (502 / 5) \<le> js_round (2009 / 20)
   \<and> run_pipe ex_pipe (key_event ''37'') 5 (setRecording False ex_state)
       = (Inr (), (setRecording False ex_state)\<lparr>trace := [Invoke 1 (Some 7)]\<rparr>)"
proof -
  let ?s = "restart_state None (502 / 5) ex_state"
  let ?u = "setRecording False ex_state"
  let ?occ = "key_event ''37''"
  have s: "groups ?s = groups ex_state" "history ?s = Some 0" "starting_time ?s = Some (502 / 5)"
    "trace ?s = []" "recording ?s" "event_information ?s = Some 7" "hists ?s 0 = []"
    by (simp_all add: ex_defs op_defs)
  have u: "groups ?u = groups ex_state" "\<not> recording ?u" "trace ?u = []"
    "event_information ?u = Some 7"
    by (simp_all add: setRecording_def ex_defs)
  have g: "groups ?s (p_functions ex_pipe) ''37'' = Some (Fn 1)"
    "groups ?u (p_functions ex_pipe) ''37'' = Some (Fn 1)"
    by (simp_all add: s(1) u(1) ex_pipe_sel ex_state_groups)
  have le: "(502 / 5 :: rat) \<le> 2009 / 20" by simp
  from pipe_dispatch [OF ex_makePipe ex_pipe_occ g(1),
      where a = 0 and now = "2009 / 20" and ?t0.0 = "502 / 5"] s le
  have "run_pipe ex_pipe ?occ (2009 / 20) ?s =
      (Inr (), ?s\<lparr>trace := [Invoke 1 (Some 7)],
                  hists := (hists ?s)(0 := [(100, (''key-down'', ''37''))])\<rparr>)
    \<and> js_round (502 / 5) \<le> js_round (2009 / 20)"
    by (simp add: js_round_def floor_numeral_quotient)
  moreover from pipe_dispatch [OF ex_makePipe ex_pipe_occ g(2),
      where a = 0 and now = 5 and ?t0.0 = 0] u
  have "run_pipe ex_pipe ?occ 5 ?u = (Inr (), ?u\<lparr>trace := [Invoke 1 (Some 7)]\<rparr>)"
    by simp
  ultimately show ?thesis
    by (simp add: pipe_state_def)
qed

subsection \<open>A pipe keeps the group it was made over\<close>

text \<open>
  C8. A pipe made for the trigger \<open>t\<close> holds the address of the group that \<open>t\<close> named
  when \<open>makePipe\<close> ran. After a \<open>reset\<close> whose trigger groups are other objects, and any
  further operations other than \<open>reset\<close>, a call of the pipe looks its code up in the
  old group, whatever the new configuration binds under \<open>t\<close>: a code that is no key of
  the old group is a miss, and nothing happens beyond the \<open>preventDefault\<close> call; a code
  bound to \<open>h\<close> in the old group has \<open>h\<close> called with the current event information, and
  the entry written to the current active history exactly when the current flag is on.
\<close>
theorem pipe_keeps_captured_group:
  assumes "makePipe t extra s0 = (Some p, s0')"
    and "p_functions p \<notin> snd ` set (case s_triggers cfg of None \<Rightarrow> [] | Some ts \<Rightarrow> ts)"
    and "list_all no_reset ops"
    and "d = run ops (reset cfg s0')"
    and "prevent_default p occ = Inr pd"
    and "pipe_alias p occ = Inr c"
  shows "map_of (triggers s0) t = Some (p_functions p)
    \<and> (groups s0 (p_functions p) c = None \<longrightarrow>
         run_pipe p occ now d = (Inr (), d\<lparr>trace := trace d @ pd\<rparr>))
    \<and> (groups s0 (p_functions p) c = Some (Fn h) \<longrightarrow>
         (\<not> recording d \<longrightarrow>
            run_pipe p occ now d =
              (Inr (), d\<lparr>trace := trace d @ pd @ [Invoke h (event_information d)]\<rparr>))
       \<and> (recording d \<longrightarrow> history d = Some a \<longrightarrow>
            run_pipe p occ now d =
              (Inr (), d\<lparr>trace := trace d @ pd @ [Invoke h (event_information d)],
                          hists := (hists d)(a := AList.update (js_round now) (t, c) (hists d a))\<rparr>)))"
proof -
  have s0': "s0' = s0" and t: "p_trigger p = t"
    and m: "map_of (triggers s0) t = Some (p_functions p)"
    using makePipe_Some(1,2,3) [OF assms(1)] by simp_all
  have "groups d = groups (reset cfg s0)"
    unfolding assms(4) s0' using assms(3) by (rule run_groups)
  then have g: "groups d (p_functions p) = groups s0 (p_functions p)"
    using assms(2) by (simp add: reset_fields each_alias_other_group)
  have miss: "groups s0 (p_functions p) c = None \<Longrightarrow>
      run_pipe p occ now d = (Inr (), d\<lparr>trace := trace d @ pd\<rparr>)"
    using run_pipe_miss [OF assms(5,6), of d now] g by simp
  have off: "groups s0 (p_functions p) c = Some (Fn h) \<Longrightarrow> \<not> recording d \<Longrightarrow>
      run_pipe p occ now d =
        (Inr (), d\<lparr>trace := trace d @ pd @ [Invoke h (event_information d)]\<rparr>)"
    using run_pipe_handler_off [OF assms(5,6), of d h now] g by simp
  have on: "groups s0 (p_functions p) c = Some (Fn h) \<Longrightarrow> recording d \<Longrightarrow> history d = Some a \<Longrightarrow>
      run_pipe p occ now d =
        (Inr (), d\<lparr>trace := trace d @ pd @ [Invoke h (event_information d)],
                    hists := (hists d)(a := AList.update (js_round now) (t, c) (hists d a))\<rparr>)"
    using run_pipe_handler_on [OF assms(5,6), of d h a now] g t by simp
  from m miss off on show ?thesis by blast
qed

text \<open>
  The new configuration binds \<open>key-down\<close> to the group at address 1, where 37 and 39
  are bound to \<open>Fn 2\<close>, and recording is switched on afterwards. The old pipe misses on
  39, which only the new group has, and on 37 calls \<open>Fn 1\<close> of the old group and
  records.
\<close>
theorem pipe_keeps_captured_group_witness:
  "get_prop (groups (run [SetRecording True] (reset other_settings (restart_state None 0 ex_state)))
       (Suc 0)) ''39'' = Fn 2
   \<and> run_pipe ex_pipe (key_event ''39'') 100
       (run [SetRecording True] (reset other_settings (restart_state None 0 ex_state)))
     = (Inr (), run [SetRecording True] (reset other_settings (restart_state None 0 ex_state)))
   \<and> trace (pipe_state ex_pipe (key_event ''37'') 100
        (run [SetRecording True] (reset other_settings (restart_state None 0 ex_state))))
     = [Invoke 1 (Some 8)]
   \<and> hists (pipe_state ex_pipe (key_event ''37'') 100
        (run [SetRecording True] (reset other_settings (restart_state None 0 ex_state)))) 0
     = [(100, (''key-down'', ''37''))]"
proof -
  let ?s = "restart_state None 0 ex_state"
  let ?d = "run [SetRecording True] (reset other_settings ?s)"
  have s: "groups ?s = groups ex_state" "triggers ?s = [(''key-down'', 0)]"
    by (simp_all add: ex_defs op_defs)
  have mk: "makePipe ''key-down'' (Some (''keyCode'', False)) ?s = (Some ex_pipe, ?s)"
    by (simp add: makePipe_def s(2) ex_pipe_def)
  have n: "p_functions ex_pipe \<notin> snd ` set (case s_triggers other_settings of None \<Rightarrow> [] | Some ts \<Rightarrow> ts)"
    by (simp add: ex_pipe_def other_settings_def)
  have ops: "list_all no_reset [SetRecording True]"
    by simp
  have old: "groups ?s (p_functions ex_pipe) ''39'' = None"
    "groups ?s (p_functions ex_pipe) ''37'' = Some (Fn 1)"
    by (simp_all add: s(1) ex_pipe_sel ex_state_groups)
  have d: "recording ?d" "history ?d = Some 0" "trace ?d = []" "event_information ?d = Some 8"
    "hists ?d 0 = []"
    by (simp_all add: setRecording_def reset_fields other_settings_def)
      (simp_all add: ex_defs op_defs)
  have new: "get_prop (groups ?d (Suc 0)) ''39'' = Fn 2"
    by (simp add: setRecording_def reset_fields other_settings_def s(1))
      (simp add: ex_defs get_prop_def)
  from pipe_keeps_captured_group [OF mk n ops refl ex_pipe_occ(1) ex_pipe_occ(2) [of "''39''"],
      where now = 100 and h = 1 and a = 0] old(1) d(3)
  have miss: "run_pipe ex_pipe (key_event ''39'') 100 ?d = (Inr (), ?d)"
    by simp
  from pipe_keeps_captured_group [OF mk n ops refl ex_pipe_occ(1) ex_pipe_occ(2) [of "''37''"],
      where now = 100 and h = 1 and a = 0] old(2) d
  have hit: "run_pipe ex_pipe (key_event ''37'') 100 ?d =
      (Inr (), ?d\<lparr>trace := [Invoke 1 (Some 8)],
                  hists := (hists ?d)(0 := [(100, (''key-down'', ''37''))])\<rparr>)"
    by (simp add: js_round_def floor_numeral_quotient)
  from new miss hit show ?thesis
    by (simp add: pipe_state_def)
qed

subsection \<open>Archived histories are references\<close>

lemma array_set_length: "i < length xs \<Longrightarrow> i < length (array_set xs j v)"
  by (simp add: array_set_def)

lemma array_set_nth_eq:
  "i < length xs \<Longrightarrow> array_set xs j v ! i = (if i = j then v else xs ! i)"
  by (simp add: array_set_def nth_append)

text \<open>\<open>saveHistory("length")\<close> archives by position and then throws.\<close>
lemma saveHistory_length_throws:
  "\<not> push_hidden s \<Longrightarrow>
     saveHistory (Some ''length'') s = (Inl RangeError, s\<lparr>histories := histories s @ [history s]\<rparr>)"
  by (auto simp: saveHistory_def array_push_def push_hidden_def array_index_def digit_of_def
      split: option.splits)

text \<open>
  What \<open>getHistory\<close> returns depends on the archive and the active history only.
\<close>
lemma getHistory_cong:
  assumes "histories s' = histories s" and "named_histories s' = named_histories s"
    and "history s' = history s"
  shows "getHistory name s' = getHistory name s"
  using assms by (auto simp: getHistory_def split: option.splits)

text \<open>
  After a \<open>saveHistory(name)\<close> that returns, the archive holds the active history under
  \<open>name\<close> and by position.
\<close>
lemma saveHistory_archives:
  assumes "history s = Some a" and "saveHistory (Some name) s = (Inr (), s1)"
  shows "history s1 = Some a"
    and "getHistory (Some name) s1 = Stored (Some a)"
    and "Some a \<in> set (histories s1)"
  using assms array_set_nth [of _ "histories s @ [Some a]" "Some a"]
    array_set_mem [of "Some a" "histories s @ [Some a]"]
  by (auto simp: saveHistory_def array_push_def getHistory_def update_conv'
      split: option.splits if_splits)

text \<open>
  A further \<open>saveHistory\<close>, with any name, keeps that: it writes the active history and
  nothing else into the archive.
\<close>
lemma saveHistory_keeps_archive:
  assumes "history s = Some a"
    and "getHistory (Some name) s = Stored (Some a)"
    and "Some a \<in> set (histories s)"
  shows "history (snd (saveHistory n2 s)) = Some a
    \<and> getHistory (Some name) (snd (saveHistory n2 s)) = Stored (Some a)
    \<and> Some a \<in> set (histories (snd (saveHistory n2 s)))"
proof (cases "array_push s (Some a)")
  case (Inl e)
  with assms show ?thesis
    by (simp add: saveHistory_def)
next
  case (Inr s1')
  define hs where "hs = histories s @ [Some a]"
  define s1 where "s1 = s\<lparr>histories := hs\<rparr>"
  from Inr have pushed: "array_push s (Some a) = Inr s1"
    by (auto simp: array_push_def s1_def hs_def split: option.splits)
  have get1: "getHistory (Some name) s1 = Stored (Some a)"
    using assms(2)
    by (auto simp: getHistory_def s1_def hs_def nth_append split: option.splits if_splits)
  have mem1: "Some a \<in> set (histories s1)"
    by (simp add: s1_def hs_def)
  have h1: "history s1 = Some a"
    using assms(1) by (simp add: s1_def)
  show ?thesis
  proof (cases n2)
    case None
    with pushed get1 mem1 h1 assms(1) show ?thesis
      by (simp add: saveHistory_def s1_def hs_def)
  next
    case (Some n)
    show ?thesis
    proof (cases "array_index n")
      case (Some j)
      have st: "snd (saveHistory n2 s) = s1\<lparr>histories := array_set hs j (Some a)\<rparr>"
        using pushed \<open>n2 = Some n\<close> Some assms(1)
        by (simp add: saveHistory_def s1_def hs_def)
      have "getHistory (Some name) (s1\<lparr>histories := array_set hs j (Some a)\<rparr>) = Stored (Some a)"
        using get1
        by (auto simp: getHistory_def s1_def array_set_length array_set_nth_eq
            split: option.splits if_splits)
      then show ?thesis
        using h1 by (simp add: st array_set_mem)
    next
      case None
      show ?thesis
      proof (cases "n = ''length''")
        case True
        have "snd (saveHistory n2 s) = s1"
          using pushed \<open>n2 = Some n\<close> None True assms(1)
          by (simp add: saveHistory_def s1_def hs_def)
        with get1 mem1 h1 show ?thesis by simp
      next
        case False
        have st: "snd (saveHistory n2 s) =
            s1\<lparr>named_histories := AList.update n (Some a) (named_histories s1)\<rparr>"
          using pushed \<open>n2 = Some n\<close> None False assms(1)
          by (simp add: saveHistory_def s1_def hs_def)
        have "getHistory (Some name)
            (s1\<lparr>named_histories := AList.update n (Some a) (named_histories s1)\<rparr>) = Stored (Some a)"
          using get1
          by (auto simp: getHistory_def update_conv' split: option.splits if_splits)
        then show ?thesis
          using h1 mem1 by (simp add: st)
      qed
    qed
  qed
qed

lemma step_keeps_archive:
  assumes "same_session x"
    and "history s = Some a"
    and "getHistory (Some name) s = Stored (Some a)"
    and "Some a \<in> set (histories s)"
  shows "history (step x s) = Some a
    \<and> getHistory (Some name) (step x s) = Stored (Some a)
    \<and> Some a \<in> set (histories (step x s))"
proof (cases x)
  case (SaveHistory n2)
  with saveHistory_keeps_archive [OF assms(2,3,4), of n2] show ?thesis by simp
next
  case (Pipe p occ now)
  have "getHistory (Some name) (step x s) = getHistory (Some name) s"
    unfolding Pipe step.simps by (rule getHistory_cong) (simp_all add: run_pipe_frame)
  with assms show ?thesis by (simp add: Pipe run_pipe_frame)
next
  case (MakePipe t extra)
  have "getHistory (Some name) (step x s) = getHistory (Some name) s"
    unfolding MakePipe step.simps
    by (rule getHistory_cong) (simp_all add: makePipe_def split: option.splits)
  with assms show ?thesis by (simp add: MakePipe makePipe_def split: option.splits)
next
  case (PlayHistory events)
  have "getHistory (Some name) (step x s) = getHistory (Some name) s"
    unfolding PlayHistory step.simps
    by (rule getHistory_cong) (simp_all add: playHistory_def Let_def)
  with assms show ?thesis by (simp add: PlayHistory playHistory_def Let_def)
next
  case (SetRecording b)
  have "getHistory (Some name) (step x s) = getHistory (Some name) s"
    unfolding SetRecording step.simps
    by (rule getHistory_cong) (simp_all add: setRecording_def)
  with assms show ?thesis by (simp add: SetRecording setRecording_def)
next
  case (SetEventInformation c)
  have "getHistory (Some name) (step x s) = getHistory (Some name) s"
    unfolding SetEventInformation step.simps
    by (rule getHistory_cong) (simp_all add: setEventInformation_def)
  with assms show ?thesis by (simp add: SetEventInformation setEventInformation_def)
next
  case (Reset cfg)
  with assms(1) show ?thesis by simp
next
  case (RestartHistory k now)
  with assms(1) show ?thesis by simp
qed

lemma run_keeps_archive:
  assumes "list_all same_session ops"
    and "history s = Some a"
    and "getHistory (Some name) s = Stored (Some a)"
    and "Some a \<in> set (histories s)"
  shows "history (run ops s) = Some a
    \<and> getHistory (Some name) (run ops s) = Stored (Some a)
    \<and> Some a \<in> set (histories (run ops s))"
  using assms
proof (induction ops arbitrary: s)
  case Nil
  then show ?case by simp
next
  case (Cons x ops)
  from Cons.prems(1) have x: "same_session x" and ops: "list_all same_session ops"
    by simp_all
  from step_keeps_archive [OF x Cons.prems(2,3,4)] Cons.IH [OF ops, of "step x s"]
  show ?case by simp
qed

text \<open>
  C9, as stated, fails: a \<open>reset\<close> between \<open>saveHistory("first")\<close> and the dispatch, with
  no \<open>restartHistory\<close>, empties the archive. The dispatch records into the active
  history, and \<open>getHistory("first")\<close> no longer finds it.
\<close>
theorem reset_between_counterexample:
  "fst (saveHistory (Some ''first'') (restart_state None 0 ex_state)) = Inr ()
   \<and> getHistory (Some ''first'')
       (run [SaveHistory (Some ''first''), Reset ex_settings, Pipe ex_pipe (key_event ''37'') 100]
         (restart_state None 0 ex_state)) = Inherited ''first''
   \<and> getHistories
       (run [SaveHistory (Some ''first''), Reset ex_settings, Pipe ex_pipe (key_event ''37'') 100]
         (restart_state None 0 ex_state)) = ([], [])
   \<and> hists
       (run [SaveHistory (Some ''first''), Reset ex_settings, Pipe ex_pipe (key_event ''37'') 100]
         (restart_state None 0 ex_state)) 0 = [(100, (''key-down'', ''37''))]"
  by (simp add: ex_defs op_defs)

text \<open>
  C9, amended. Let an active history \<open>a\<close> exist and \<open>saveHistory(name)\<close> return (as it
  does unless \<open>name\<close> is \<open>length\<close> or the array's \<open>push\<close> is hidden). After any operations
  other than \<open>restartHistory\<close> and \<open>reset\<close>, and then a pipe call that records (the flag
  is on, the argument is accepted, its code is a key of the pipe's group):
  \<open>getHistory(name)\<close> is the active history object, the array of \<open>getHistories()\<close>
  contains it, and it holds the new entry.
\<close>
theorem saveHistory_archives_reference:
  assumes "history s = Some a"
    and "saveHistory (Some name) s = (Inr (), s1)"
    and "list_all same_session ops"
    and "d = run ops s1"
    and "recording d"
    and "prevent_default p occ = Inr pd"
    and "pipe_alias p occ = Inr c"
    and "hasOwnProperty (groups d (p_functions p)) c"
  shows "getHistory (Some name) (pipe_state p occ now d) = Stored (Some a)
    \<and> getHistory None (pipe_state p occ now d) = Stored (Some a)
    \<and> Some a \<in> set (fst (getHistories (pipe_state p occ now d)))
    \<and> map_of (hists (pipe_state p occ now d) a) (js_round now) = Some (p_trigger p, c)"
proof -
  have inv: "history d = Some a \<and> getHistory (Some name) d = Stored (Some a)
      \<and> Some a \<in> set (histories d)"
    unfolding assms(4) using assms(3) saveHistory_archives [OF assms(1,2)]
    by (rule run_keeps_archive)
  define d' where "d' = pipe_state p occ now d"
  have frame: "history d' = history d" "histories d' = histories d"
    "named_histories d' = named_histories d"
    by (simp_all add: d'_def pipe_state_def run_pipe_frame)
  have "getHistory (Some name) d' = getHistory (Some name) d"
    by (rule getHistory_cong [OF frame(2,3,1)])
  moreover have "hists d' = (hists d)(a := AList.update (js_round now) (p_trigger p, c) (hists d a))"
    unfolding d'_def pipe_state_def
    using assms(6,7,8,5) inv by (simp add: run_pipe_recorded)
  ultimately show ?thesis
    using inv frame
    by (simp add: d'_def [symmetric] getHistory_def getHistories_def update_conv')
qed

text \<open>
  The example session: \<open>saveHistory("first")\<close>, then a second \<open>saveHistory\<close> under an
  array index and a switch of the flag, then \<open>pipe({keyCode: 37})\<close> at time 100.
\<close>
theorem saveHistory_archives_reference_witness:
  "getHistory (Some ''first'')
      (pipe_state ex_pipe (key_event ''37'') 100
        (run [SaveHistory (Some ''3''), SetRecording True]
          (snd (saveHistory (Some ''first'') (restart_state None 0 ex_state))))) = Stored (Some 0)
   \<and> map_of (hists
      (pipe_state ex_pipe (key_event ''37'') 100
        (run [SaveHistory (Some ''3''), SetRecording True]
          (snd (saveHistory (Some ''first'') (restart_state None 0 ex_state))))) 0) 100
      = Some (''key-down'', ''37'')"
proof -
  let ?s = "restart_state None 0 ex_state"
  let ?s1 = "snd (saveHistory (Some ''first'') ?s)"
  let ?ops = "[SaveHistory (Some ''3''), SetRecording True]"
  let ?d = "run ?ops ?s1"
  have h: "history ?s = Some 0"
    by (simp add: ex_defs op_defs)
  have sv: "saveHistory (Some ''first'') ?s = (Inr (), ?s1)"
    by (simp add: ex_defs op_defs)
  have ops: "list_all same_session ?ops"
    by simp
  have "groups ?d = groups ex_state"
    by (simp add: saveHistory_fields setRecording_def restart_state_def restartHistory_fields)
  then have own: "hasOwnProperty (groups ?d (p_functions ex_pipe)) ''37''"
    by (simp add: hasOwnProperty_def ex_pipe_sel ex_state_groups)
  have rec: "recording ?d"
    by (simp add: setRecording_def)
  from saveHistory_archives_reference [OF h sv ops refl rec ex_pipe_occ own, of 100]
  show ?thesis
    by (simp add: ex_pipe_sel js_round_def floor_numeral_quotient)
qed

subsection \<open>One entry for each millisecond\<close>



end
